theory Spec2Isabelle
  imports Main "HOL-Library.Sublist" "HOL-Library.Multiset"
begin

section \<open>Text\<close>

text \<open>
  The script runs under Python 2 with \<open>unicode_literals\<close>: every text it handles after the
  first \<open>replace\<close> is a \<open>unicode\<close> object, a sequence of characters. A \<open>string\<close> of the
  model is that sequence, one \<open>char\<close> per character (the characters up to code point 255),
  so \<open>length\<close> is Python's \<open>len\<close>. \<open>encode('utf-8')\<close> followed by the implicit decoding
  that \<open>replace\<close> and \<open>format\<close> perform gives the same characters back and is not shown.
\<close>

definition LF :: char where
  "LF = CHR 0x0A"

definition CR :: char where
  "CR = CHR 0x0D"

definition isspace :: "char \<Rightarrow> bool" where
  \<comment> \<open>the characters \<open>unicode.split()\<close> separates at, up to code point 255\<close>
  "isspace ch = (of_char ch \<in> {9, 10, 11, 12, 13, 28, 29, 30, 31, 32, 133, 160 :: nat})"

text \<open>
  \<open>s.split()\<close>: the maximal runs of non-whitespace characters, in order. \<open>word\<close> is the
  run read so far.
\<close>

fun split_from :: "string \<Rightarrow> string \<Rightarrow> string list" where
  "split_from word [] = (if word = [] then [] else [word])"
| "split_from word (ch # rest) =
     (if isspace ch
      then (if word = [] then split_from [] rest else word # split_from [] rest)
      else split_from (word @ [ch]) rest)"

definition py_split :: "string \<Rightarrow> string list" where
  "py_split s = split_from [] s"

text \<open>
  \<open>s.replace(old, new)\<close>: every occurrence of \<open>old\<close>, found from the left without
  overlap, becomes \<open>new\<close>; an empty \<open>old\<close> matches before every character and at the end.
\<close>

fun replace :: "string \<Rightarrow> string \<Rightarrow> string \<Rightarrow> string" where
  "replace [] new s = new @ concat (map (\<lambda>ch. ch # new) s)"
| "replace (a # old) new [] = []"
| "replace (a # old) new (ch # rest) =
     (if prefix (a # old) (ch # rest)
      then new @ replace (a # old) new (drop (length old) rest)
      else ch # replace (a # old) new rest)"

text \<open>\<open>s[0:n]\<close> and \<open>s[:n]\<close>: a negative \<open>n\<close> counts from the end.\<close>

definition slice_to :: "'a list \<Rightarrow> int \<Rightarrow> 'a list" where
  "slice_to s n = (if n < 0 then take (nat (int (length s) + n)) s else take (nat n) s)"

section \<open>bodyBreaker\<close>

text \<open>
  The nested function of \<open>generateTable\<close>. Its two call sites pass the widths 25 and 50;
  \<open>width\<close> is a natural number.
\<close>

definition trim :: "nat \<Rightarrow> string \<Rightarrow> string" where
  \<comment> \<open>the \<open>if\<close> of the loop body: a word longer than \<open>width\<close> is cut and marked\<close>
  "trim width word = (if length word > width then take width word @ ''..'' else word)"

definition bodyBreaker :: "string \<Rightarrow> nat \<Rightarrow> string" where
  "bodyBreaker body width =
     foldl (\<lambda>body word. body @ trim width word @ '' '') [] (py_split body)"


section \<open>Values of the runtime\<close>

text \<open>
  What \<open>json.loads\<close> returns: \<open>None\<close>, a boolean, a number, a text, a list or a dict
  with text keys (\<open>JObj\<close> lists the entries of the dict, one for each key). The script
  never reads the value of a number.
\<close>

datatype json =
    JNull
  | JBool bool
  | JNum int
  | JStr string
  | JArr "json list"
  | JObj "(string \<times> json) list"

datatype pyerr = TypeError | KeyError | AttributeError

definition bindE :: "pyerr + 'a \<Rightarrow> ('a \<Rightarrow> pyerr + 'b) \<Rightarrow> pyerr + 'b" where
  \<comment> \<open>the next statement runs unless the one before it raised\<close>
  "bindE r f = (case r of Inl e \<Rightarrow> Inl e | Inr v \<Rightarrow> f v)"

fun getitem :: "json \<Rightarrow> string \<Rightarrow> pyerr + json" where
  \<comment> \<open>\<open>v['key']\<close>: only a dict takes a text as subscript\<close>
  "getitem (JObj entries) key =
     (case map_of entries key of None \<Rightarrow> Inl KeyError | Some v \<Rightarrow> Inr v)"
| "getitem v key = Inl TypeError"

fun encode :: "json \<Rightarrow> pyerr + string" where
  \<comment> \<open>\<open>v.encode('utf-8')\<close>: a method of texts only\<close>
  "encode (JStr s) = Inr s"
| "encode v = Inl AttributeError"

fun getslice :: "json \<Rightarrow> int \<Rightarrow> pyerr + json" where
  \<comment> \<open>\<open>v[0:n]\<close>: texts and lists can be sliced\<close>
  "getslice (JStr s) n = Inr (JStr (slice_to s n))"
| "getslice (JArr vs) n = Inr (JArr (slice_to vs n))"
| "getslice v n = Inl TypeError"

fun iterate :: "json \<Rightarrow> pyerr + json list" where
  \<comment> \<open>\<open>for result in v\<close>: the items of a list, the keys of a dict, the characters of a text\<close>
  "iterate (JArr vs) = Inr vs"
| "iterate (JObj entries) = Inr (map (\<lambda>entry. JStr (fst entry)) entries)"
| "iterate (JStr s) = Inr (map (\<lambda>ch. JStr [ch]) s)"
| "iterate v = Inl TypeError"

fun len :: "json \<Rightarrow> pyerr + nat" where
  "len (JArr vs) = Inr (length vs)"
| "len (JObj entries) = Inr (length entries)"
| "len (JStr s) = Inr (length s)"
| "len v = Inl TypeError"

definition formatted :: "(json \<Rightarrow> string) \<Rightarrow> json \<Rightarrow> string" where
  \<comment> \<open>what \<open>'{}'.format(v)\<close> inserts: a text as it is; for any other value Python's text of
      it, which the model takes as the parameter \<open>text_of\<close>\<close>
  "formatted text_of v = (case v of JStr s \<Rightarrow> s | _ \<Rightarrow> text_of v)"

fun decimal :: "nat \<Rightarrow> string" where
  \<comment> \<open>\<open>'{}'.format(n)\<close> for a count\<close>
  "decimal n =
     (if n < 10 then [''0123456789'' ! n] else decimal (n div 10) @ [''0123456789'' ! (n mod 10)])"

declare decimal.simps [simp del]

definition upper :: "char \<Rightarrow> char" where
  "upper ch =
     (case map_of (zip ''abcdefghijklmnopqrstuvwxyz'' ''ABCDEFGHIJKLMNOPQRSTUVWXYZ'') ch of
        None \<Rightarrow> ch
      | Some capital \<Rightarrow> capital)"

definition lower :: "char \<Rightarrow> char" where
  "lower ch =
     (case map_of (zip ''ABCDEFGHIJKLMNOPQRSTUVWXYZ'' ''abcdefghijklmnopqrstuvwxyz'') ch of
        None \<Rightarrow> ch
      | Some small \<Rightarrow> small)"

fun capitalize :: "string \<Rightarrow> string" where
  \<comment> \<open>\<open>str.capitalize()\<close> of a byte string: the labels come from the command line or from
      \<open>getLabels\<close>, which encodes them\<close>
  "capitalize [] = []"
| "capitalize (ch # rest) = upper ch # map lower rest"

section \<open>getLabels\<close>

text \<open>
  \<open>output\<close> is the parsed response of the label endpoint: the request and \<open>json.loads\<close>
  are the environment. The function returns what it printed and either the exception
  that ended it or the list of labels.
\<close>

fun labels_loop :: "json list \<Rightarrow> string list \<Rightarrow> pyerr + string list" where
  "labels_loop [] labels = Inr labels"
| "labels_loop (result # rest) labels =
     (case getitem result ''name'' of
        Inl e \<Rightarrow> Inl e
      | Inr name \<Rightarrow>
          (case encode name of
             Inl e \<Rightarrow> Inl e
           | Inr label \<Rightarrow> labels_loop rest (labels @ [label])))"

definition getLabels :: "json \<Rightarrow> string \<times> (pyerr + string list)" where
  "getLabels output =
     (case getitem output ''message'' of
        Inl e \<Rightarrow> ([], Inl e)
      | Inr message \<Rightarrow>
          if message = JStr ''Not Found''
          then (''That repo and/or label was not found.'' @ [LF], Inr [])
          else ([], bindE (iterate output) (\<lambda>results. labels_loop results [])))"

section \<open>generateTable\<close>

text \<open>
  A \<open>Counter\<close> is kept as the list of its entries in the order the keys were first added;
  a key that is missing counts 0.
\<close>

type_synonym counter = "(string \<times> int) list"

definition count_of :: "counter \<Rightarrow> string \<Rightarrow> int" where
  "count_of c user = (case map_of c user of None \<Rightarrow> 0 | Some n \<Rightarrow> n)"

definition increment :: "counter \<Rightarrow> string \<Rightarrow> counter" where
  \<comment> \<open>\<open>c[user] += 1\<close>\<close>
  "increment c user =
     (if user \<in> fst ` set c
      then map (\<lambda>entry. if fst entry = user then (fst entry, snd entry + 1) else entry) c
      else c @ [(user, 1)])"

definition heading :: "string \<Rightarrow> string" where
  "heading label = (let label = capitalize label in if label = ''Bug'' then ''Bug Fix'' else label)"

definition issue_title :: "json \<Rightarrow> pyerr + string" where
  "issue_title result =
     bindE (getitem result ''title'') (\<lambda>title.
     bindE (encode title) (\<lambda>title.
       Inr (bodyBreaker (replace [CR] [] (replace [LF] '' '' title)) 25)))"

definition issue_body :: "int \<Rightarrow> json \<Rightarrow> pyerr + string" where
  "issue_body limit result =
     bindE (getitem result ''body'') (\<lambda>whole.
     bindE (getslice whole limit) (\<lambda>cut.
     bindE (encode cut) (\<lambda>body.
     bindE (len whole) (\<lambda>n.
       let body = replace ''`'' [] (replace [CR] [] (replace [LF] '' '' body));
           body = (if int n > limit then body @ ''...'' else body);
           body = bodyBreaker body 50
       in Inr (if length body = 0 then ''n/a'' else body)))))"

definition issue_user :: "json \<Rightarrow> pyerr + string \<times> json" where
  "issue_user result =
     bindE (getitem result ''user'') (\<lambda>author.
     bindE (getitem author ''login'') (\<lambda>login.
     bindE (encode login) (\<lambda>user.
     bindE (getitem author ''html_url'') (\<lambda>user_url.
       Inr (user, user_url)))))"

definition issue_row :: "(json \<Rightarrow> string) \<Rightarrow> int \<Rightarrow> json \<Rightarrow> pyerr + string \<times> string \<times> json" where
  \<comment> \<open>the statements of the loop body that can raise, in the order of the source; the
      result is the row, the user and the user's URL\<close>
  "issue_row text_of limit result =
     bindE (issue_title result) (\<lambda>title.
     bindE (getitem result ''html_url'') (\<lambda>url.
     bindE (issue_body limit result) (\<lambda>body.
     bindE (issue_user result) (\<lambda>(user, user_url).
       Inr (''|['' @ title @ '']('' @ formatted text_of url @ '')|'' @ body @
            ''|['' @ user @ '']('' @ formatted text_of user_url @ '')|'', user, user_url)))))"

record table =
  printed :: string
  total :: nat
  directory :: "string \<rightharpoonup> json"
  tally :: counter

fun rows :: "(json \<Rightarrow> string) \<Rightarrow> int \<Rightarrow> json list \<Rightarrow> table \<Rightarrow> table \<times> pyerr option" where
  "rows text_of limit [] t = (t, None)"
| "rows text_of limit (result # rest) t =
     (case issue_row text_of limit result of
        Inl e \<Rightarrow> (t, Some e)
      | Inr (row, user, user_url) \<Rightarrow>
          rows text_of limit rest
            \<lparr>printed = printed t @ row @ [LF],
             total = total t + 1,
             directory = (directory t)(user \<mapsto> user_url),
             tally = increment (tally t) user\<rparr>)"

text \<open>
  \<open>output\<close> is the parsed response of the issue endpoint and \<open>params\<close> the dict of
  query parameters. The function returns what it printed and either the exception that
  ended it or the pair \<open>(contributors, c)\<close>.
\<close>

definition header :: "string \<Rightarrow> string" where
  \<comment> \<open>the two \<open>print\<close> calls before the loop\<close>
  "header label =
     [LF] @ ''## '' @ heading label @ '' Updates'' @ [LF] @
     [LF] @ ''| Title | Summary | Contributor |'' @ [LF] @ ''|---|---|---|'' @ [LF]"

definition count_line :: "nat \<Rightarrow> nat \<Rightarrow> string" where
  \<comment> \<open>the \<open>print\<close> call after the loop\<close>
  "count_line emitted returned =
     ''Total of '' @ decimal emitted @ '' out of '' @ decimal returned @ [LF] @ [LF]"

definition generateTable ::
  "(json \<Rightarrow> string) \<Rightarrow> json \<Rightarrow> (string \<rightharpoonup> string) \<Rightarrow> int \<Rightarrow> counter \<Rightarrow>
   string \<times> (pyerr + (string \<rightharpoonup> json) \<times> counter)" where
  "generateTable text_of output params limit c =
     (case params ''labels'' of
        None \<Rightarrow> ([], Inl AttributeError)
      | Some label \<Rightarrow>
          (case iterate output of
             Inl e \<Rightarrow> (header label, Inl e)
           | Inr results \<Rightarrow>
               (case rows text_of limit results
                       \<lparr>printed = header label, total = 0,
                        directory = Map.empty, tally = c\<rparr> of
                  (t, Some e) \<Rightarrow> (printed t, Inl e)
                | (t, None) \<Rightarrow>
                    (case len output of
                       Inl e \<Rightarrow> (printed t, Inl e)
                     | Inr returned \<Rightarrow>
                         (printed t @ count_line (total t) returned,
                          Inr (directory t, tally t))))))"

section \<open>generateList\<close>

text \<open>
  \<open>Counter.most_common()\<close> of Python 2 is
  \<open>sorted(self.iteritems(), key=itemgetter(1), reverse=True)\<close>: a stable sort of the
  entries, largest count first, starting from the order in which the dict lists them.
  That order is the order of the dict's hash table and not the order of insertion (the
  script is Python 2 only: it calls \<open>reload(sys)\<close> and \<open>sys.setdefaultencoding\<close>), so the
  model takes it as the parameter \<open>iteritems\<close>, from the entries in first-seen order to
  the entries as the dict lists them.
\<close>

definition most_common :: "(counter \<Rightarrow> counter) \<Rightarrow> counter \<Rightarrow> counter" where
  "most_common iteritems c = sort_key (\<lambda>entry. - snd entry) (iteritems c)"

definition link :: "(json \<Rightarrow> string) \<Rightarrow> string \<Rightarrow> json \<Rightarrow> string" where
  \<comment> \<open>\<open>print("[{}]({})".format(user, contributors[user]), end=' ')\<close>\<close>
  "link text_of user url = ''['' @ user @ '']('' @ formatted text_of url @ '')'' @ '' ''"

fun ranked_loop ::
  "(json \<Rightarrow> string) \<Rightarrow> (string \<rightharpoonup> json) \<Rightarrow> counter \<Rightarrow> string \<Rightarrow> string \<times> pyerr option" where
  "ranked_loop text_of contributors [] out = (out, None)"
| "ranked_loop text_of contributors ((user, rank) # rest) out =
     (case contributors user of
        None \<Rightarrow> (out, Some KeyError)
      | Some url \<Rightarrow> ranked_loop text_of contributors rest (out @ link text_of user url))"

definition generateList ::
  "(json \<Rightarrow> string) \<Rightarrow> (counter \<Rightarrow> counter) \<Rightarrow> (string \<rightharpoonup> json) \<Rightarrow> counter \<Rightarrow> string \<Rightarrow>
   string \<times> (pyerr + unit)" where
  "generateList text_of iteritems contributors c label =
     (case ranked_loop text_of contributors (most_common iteritems c)
             ([LF] @ ''### '' @ heading label @ '' Contributors'' @ [LF] @ [LF]) of
        (out, Some e) \<Rightarrow> (out, Inl e)
      | (out, None) \<Rightarrow> (out @ [LF] @ [LF], Inr ()))"


section \<open>Notions used in the statements\<close>

definition solid :: "string \<Rightarrow> bool" where
  \<comment> \<open>no whitespace inside\<close>
  "solid w = (\<forall>ch \<in> set w. \<not> isspace ch)"

definition breaks_to_spaces :: "string \<Rightarrow> string" where
  \<comment> \<open>the normalisation of line breaks as the specification words it: carriage returns and
      newlines replaced with spaces\<close>
  "breaks_to_spaces s = map (\<lambda>ch. if ch = CR \<or> ch = LF then CHR '' '' else ch) s"

definition scalar_text :: "json \<Rightarrow> string" where
  \<comment> \<open>an instance of the parameter \<open>text_of\<close> for the concrete runs below: Python's text
      of \<open>None\<close>, of a boolean and of an integer; none of the runs formats a list or a
      dict\<close>
  "scalar_text v =
     (case v of
        JNull \<Rightarrow> ''None''
      | JBool b \<Rightarrow> (if b then ''True'' else ''False'')
      | JNum n \<Rightarrow> (if n < 0 then ''-'' @ decimal (nat (- n)) else decimal (nat n))
      | _ \<Rightarrow> [])"

definition an_issue :: "string \<Rightarrow> json \<Rightarrow> string \<Rightarrow> json" where
  \<comment> \<open>an issue object as the service sends it, for the concrete runs below\<close>
  "an_issue title body login =
     JObj [(''title'', JStr title),
           (''html_url'', JStr ''https://github.com/caffe2/caffe2/issues/7''),
           (''body'', body),
           (''user'', JObj [(''login'', JStr login),
                            (''html_url'', JStr (''https://github.com/'' @ login))])]"

definition example_tally :: counter where
  \<comment> \<open>the tally of the specification's example, its keys in first-seen order\<close>
  "example_tally = [(''alice'', 3), (''bob'', 5), (''carol'', 3)]"

definition example_directory :: "string \<rightharpoonup> json" where
  "example_directory =
     [''alice'' \<mapsto> JStr ''https://github.com/alice'',
      ''bob'' \<mapsto> JStr ''https://github.com/bob'',
      ''carol'' \<mapsto> JStr ''https://github.com/carol'']"

definition complete_issue :: "json \<Rightarrow> bool" where
  \<comment> \<open>an issue object with all the fields the loop reads: a title and a body that are
      texts, a URL, and a user with a login that is a text and a URL\<close>
  "complete_issue result =
     (case (getitem result ''title'', getitem result ''html_url'', getitem result ''body'',
            issue_user result) of
        (Inr (JStr title), Inr url, Inr (JStr body), Inr user) \<Rightarrow> True
      | _ \<Rightarrow> False)"

definition cut_body :: "int \<Rightarrow> string \<Rightarrow> string" where
  \<comment> \<open>the text that \<open>generateTable\<close> hands to \<open>bodyBreaker\<close> for a body that is a text:
      the first \<open>limit\<close> characters without line breaks and backticks, and the marker
      when the body is longer than \<open>limit\<close>\<close>
  "cut_body limit whole =
     (let body = replace ''`'' [] (replace [CR] [] (replace [LF] '' '' (slice_to whole limit)))
      in if int (length whole) > limit then body @ ''...'' else body)"

section \<open>Splitting and joining\<close>

lemma split_from_solid: "solid t \<Longrightarrow> split_from w (t @ rest) = split_from (w @ t) rest"
  by (induction t arbitrary: w) (simp_all add: solid_def)

lemma split_from_word:
  assumes "solid t" "isspace sp"
  shows "split_from w (t @ sp # rest) =
         (if w @ t = [] then split_from [] rest else (w @ t) # split_from [] rest)"
  using assms by (simp add: split_from_solid)

lemma split_from_tokens:
  "solid w \<Longrightarrow> t \<in> set (split_from w s) \<Longrightarrow> t \<noteq> [] \<and> solid t"
proof (induction s arbitrary: w)
  case Nil
  then show ?case by (auto split: if_splits)
next
  case (Cons ch rest)
  show ?case
  proof (cases "isspace ch")
    case True
    with Cons.prems have "t = w \<and> w \<noteq> [] \<or> t \<in> set (split_from [] rest)"
      by (auto split: if_splits)
    then show ?thesis
      using Cons.IH [of "[]"] Cons.prems(1) by (auto simp: solid_def)
  next
    case False
    with Cons.prems have "t \<in> set (split_from (w @ [ch]) rest)" by simp
    moreover have "solid (w @ [ch])" using False Cons.prems(1) by (simp add: solid_def)
    ultimately show ?thesis using Cons.IH by blast
  qed
qed

lemma py_split_tokens: "t \<in> set (py_split s) \<Longrightarrow> t \<noteq> [] \<and> solid t"
  using split_from_tokens [of "[]" t s] by (simp add: py_split_def solid_def)

lemma py_split_join:
  "\<forall>t \<in> set ts. t \<noteq> [] \<and> solid t \<Longrightarrow> py_split (concat (map (\<lambda>t. t @ '' '') ts)) = ts"
proof (induction ts)
  case Nil
  then show ?case by (simp add: py_split_def)
next
  case (Cons t ts)
  have sp: "isspace (CHR '' '')" by (simp add: isspace_def)
  have "split_from [] (t @ CHR '' '' # concat (map (\<lambda>t. t @ '' '') ts)) =
        t # split_from [] (concat (map (\<lambda>t. t @ '' '') ts))"
    using Cons.prems sp by (simp add: split_from_word)
  then show ?case using Cons by (simp add: py_split_def)
qed

lemma foldl_append_concat: "foldl (\<lambda>acc x. acc @ f x) acc xs = acc @ concat (map f xs)"
  by (induction xs arbitrary: acc) simp_all

lemma bodyBreaker_concat:
  "bodyBreaker body width = concat (map (\<lambda>word. trim width word @ '' '') (py_split body))"
  using foldl_append_concat [of "\<lambda>word. trim width word @ '' ''" "[]" "py_split body"]
  by (simp add: bodyBreaker_def)

lemma solid_trim: "t \<noteq> [] \<Longrightarrow> solid t \<Longrightarrow> trim width t \<noteq> [] \<and> solid (trim width t)"
  by (auto simp: trim_def solid_def isspace_def dest: in_set_takeD)

lemma py_split_bodyBreaker:
  "py_split (bodyBreaker body width) = map (trim width) (py_split body)"
proof -
  have "\<forall>t \<in> set (map (trim width) (py_split body)). t \<noteq> [] \<and> solid t"
    using py_split_tokens solid_trim by auto
  from py_split_join [OF this] show ?thesis
    by (simp add: bodyBreaker_concat comp_def)
qed

lemma length_trim: "length (trim width t) \<le> width + 2"
  by (simp add: trim_def)

lemma trim_short: "length t \<le> width \<Longrightarrow> trim width t = t"
  by (simp add: trim_def)

lemma trim_trim: "trim width (trim width t) = trim width t"
  by (simp add: trim_def)

lemma bodyBreaker_idem: "bodyBreaker (bodyBreaker body width) width = bodyBreaker body width"
  by (simp add: bodyBreaker_concat [of "bodyBreaker body width"] py_split_bodyBreaker
      comp_def trim_trim) (simp add: bodyBreaker_concat)

section \<open>The sanitizer\<close>

text \<open>
  Claim C6. For every text \<open>S\<close> and width \<open>W\<close>, every whitespace-delimited token of
  \<open>bodyBreaker S W\<close> has at most \<open>W + 2\<close> characters, every token of \<open>S\<close> of at most
  \<open>W\<close> characters is a token of the output, unchanged, and the empty text gives the
  empty text.
\<close>

theorem bodyBreaker_tokens:
  "(\<forall>t \<in> set (py_split (bodyBreaker S W)). length t \<le> W + 2) \<and>
   (\<forall>t \<in> set (py_split S). length t \<le> W \<longrightarrow> t \<in> set (py_split (bodyBreaker S W))) \<and>
   bodyBreaker [] W = []"
proof (intro conjI ballI impI)
  fix t assume "t \<in> set (py_split (bodyBreaker S W))"
  then obtain w where "t = trim W w"
    by (auto simp: py_split_bodyBreaker)
  then show "length t \<le> W + 2"
    using length_trim [of W w] by simp
next
  fix t assume t: "t \<in> set (py_split S)" and short: "length t \<le> W"
  from t have "trim W t \<in> trim W ` set (py_split S)"
    by (rule imageI)
  then show "t \<in> set (py_split (bodyBreaker S W))"
    by (simp add: py_split_bodyBreaker trim_short [OF short])
next
  show "bodyBreaker [] W = []" by (simp add: bodyBreaker_def py_split_def)
qed

theorem bodyBreaker_tokens_witness:
  "length ''abcdef..'' \<le> (6::nat) + 2 \<and> ''ab'' \<in> set (py_split (bodyBreaker ''ab abcdefgh'' 6)) \<and>
   bodyBreaker [] 6 = []"
proof -
  have ev: "py_split ''ab abcdefgh'' = [''ab'', ''abcdefgh'']"
    "py_split (bodyBreaker ''ab abcdefgh'' 6) = [''ab'', ''abcdef..'']"
    by (simp_all add: bodyBreaker_def trim_def py_split_def isspace_def)
  show ?thesis using bodyBreaker_tokens [of "''ab abcdefgh''" 6] by (simp add: ev)
qed

text \<open>
  Claim C3, as the code has it. When every token of \<open>S\<close> has at most \<open>W\<close> characters,
  \<open>bodyBreaker S W\<close> is the tokens of \<open>S\<close>, each followed by one space: the tokens are
  unchanged, whitespace between them becomes one space and a space ends the text, so
  the input comes back only when it already has that form. Applying the function
  twice equals applying it once.
\<close>

theorem bodyBreaker_short:
  assumes "\<forall>t \<in> set (py_split S). length t \<le> W"
  shows "bodyBreaker S W = concat (map (\<lambda>t. t @ '' '') (py_split S)) \<and>
         py_split (bodyBreaker S W) = py_split S \<and>
         bodyBreaker (bodyBreaker S W) W = bodyBreaker S W"
proof -
  have toks: "map (trim W) (py_split S) = py_split S"
    using assms by (simp add: trim_short map_idI)
  have "map (\<lambda>word. trim W word @ '' '') (py_split S) = map (\<lambda>t. t @ '' '') (py_split S)"
    using assms by (simp add: trim_short)
  then have "bodyBreaker S W = concat (map (\<lambda>t. t @ '' '') (py_split S))"
    by (simp only: bodyBreaker_concat)
  moreover have "py_split (bodyBreaker S W) = py_split S"
    by (simp add: py_split_bodyBreaker toks)
  ultimately show ?thesis
    using bodyBreaker_idem [of S W] by simp
qed

theorem bodyBreaker_short_witness:
  "bodyBreaker ''a  b'' 5 = ''a b '' \<and> py_split (bodyBreaker ''a  b'' 5) = [''a'', ''b''] \<and>
   bodyBreaker (bodyBreaker ''a  b'' 5) 5 = bodyBreaker ''a  b'' 5"
proof -
  have ev: "py_split ''a  b'' = [''a'', ''b'']"
    by (simp add: py_split_def isspace_def)
  have short: "\<forall>t \<in> set (py_split ''a  b''). length t \<le> 5"
    by (simp add: ev)
  have joined: "concat (map (\<lambda>t. t @ '' '') [''a'', ''b'']) = ''a b ''"
    by simp
  from bodyBreaker_short [OF short] show ?thesis
    unfolding ev joined .
qed

text \<open>
  The text \<open>a\<close> has the one token \<open>a\<close>, shorter than the width 5, and does not come
  back unchanged: a space is appended.
\<close>

theorem bodyBreaker_short_counterexample:
  "py_split ''a'' = [''a''] \<and> length ''a'' \<le> (5::nat) \<and> bodyBreaker ''a'' 5 = ''a '' \<and>
   bodyBreaker ''a'' 5 \<noteq> ''a''"
  by (simp add: bodyBreaker_def trim_def py_split_def isspace_def)

lemma decimal_0: "decimal 0 = ''0''"
  by (simp add: decimal.simps [of 0])

section \<open>The label fetcher\<close>

text \<open>
  Claim C2 asks that a successful response, the list of label objects, gives the list
  of their names. The first statement of \<open>getLabels\<close> after parsing is
  \<open>output['message']\<close>, and a list takes no text as subscript: for every list, also
  the empty one, the function ends in \<open>TypeError\<close> and the loop that collects the
  names is never reached.
\<close>

theorem getLabels_list_raises: "getLabels (JArr labels) = ([], Inl TypeError)"
  by (simp add: getLabels_def)

text \<open>
  Claim C10. When the response is the object whose \<open>message\<close> is \<open>Not Found\<close>,
  \<open>getLabels\<close> prints the not-found message and returns the empty list; it raises
  nothing.
\<close>

theorem getLabels_not_found:
  "map_of entries ''message'' = Some (JStr ''Not Found'') \<Longrightarrow>
   getLabels (JObj entries) = (''That repo and/or label was not found.'' @ [LF], Inr [])"
  by (simp add: getLabels_def)

theorem getLabels_not_found_witness:
  "getLabels (JObj [(''message'', JStr ''Not Found''),
                    (''documentation_url'', JStr ''https://developer.github.com/v3'')]) =
   (''That repo and/or label was not found.'' @ [LF], Inr [])"
  by (rule getLabels_not_found) simp

section \<open>The table\<close>

text \<open>
  Claim C9. When the response holds no issue, \<open>generateTable\<close> prints the heading and
  the header of the table, then at once the line \<open>Total of 0 out of 0\<close>, and no row;
  it returns an empty directory and the counter it was given.
\<close>

theorem generateTable_no_issues:
  "params ''labels'' = Some label \<Longrightarrow>
   generateTable text_of (JArr []) params limit c =
     ([LF] @ ''## '' @ heading label @ '' Updates'' @ [LF] @
      [LF] @ ''| Title | Summary | Contributor |'' @ [LF] @ ''|---|---|---|'' @ [LF] @
      ''Total of 0 out of 0'' @ [LF] @ [LF],
      Inr (Map.empty, c))"
  by (simp add: generateTable_def header_def count_line_def decimal_0)

theorem generateTable_no_issues_witness:
  "generateTable scalar_text (JArr []) [''labels'' \<mapsto> ''bug''] 180 [] =
     ([LF] @ ''## Bug Fix Updates'' @ [LF] @
      [LF] @ ''| Title | Summary | Contributor |'' @ [LF] @ ''|---|---|---|'' @ [LF] @
      ''Total of 0 out of 0'' @ [LF] @ [LF],
      Inr (Map.empty, []))"
proof -
  have h: "heading ''bug'' = ''Bug Fix''"
    by (simp add: heading_def upper_def lower_def)
  have p: "[''labels'' \<mapsto> ''bug''] ''labels'' = Some ''bug''"
    by simp
  from generateTable_no_issues [of "[''labels'' \<mapsto> ''bug'']" "''bug''" scalar_text 180 "[]", OF p]
  show ?thesis
    by (simp add: h)
qed

text \<open>
  Claim C1 asks that an issue whose body is \<open>null\<close> or absent gets the placeholder
  \<open>n/a\<close> and counts for its author. The loop slices the body before anything else,
  \<open>result['body'][0:limit]\<close>: \<open>None\<close> cannot be sliced and the pass ends in
  \<open>TypeError\<close>, an absent body ends it in \<open>KeyError\<close>; in both cases after the header,
  with no row, no count and no total line.
\<close>

theorem generateTable_null_body:
  "generateTable text_of
     (JArr [JObj [(''title'', JStr ''Crash on start''),
                  (''html_url'', JStr ''https://github.com/caffe2/caffe2/issues/1''),
                  (''body'', JNull),
                  (''user'', JObj [(''login'', JStr ''alice''),
                                   (''html_url'', JStr ''https://github.com/alice'')])]])
     [''labels'' \<mapsto> ''bug''] 180 [] =
   ([LF] @ ''## Bug Fix Updates'' @ [LF] @
    [LF] @ ''| Title | Summary | Contributor |'' @ [LF] @ ''|---|---|---|'' @ [LF],
    Inl TypeError) \<and>
   generateTable text_of
     (JArr [JObj [(''title'', JStr ''Crash on start''),
                  (''html_url'', JStr ''https://github.com/caffe2/caffe2/issues/1''),
                  (''user'', JObj [(''login'', JStr ''alice''),
                                   (''html_url'', JStr ''https://github.com/alice'')])]])
     [''labels'' \<mapsto> ''bug''] 180 [] =
   ([LF] @ ''## Bug Fix Updates'' @ [LF] @
    [LF] @ ''| Title | Summary | Contributor |'' @ [LF] @ ''|---|---|---|'' @ [LF],
    Inl KeyError)"
  by (simp add: generateTable_def header_def issue_row_def issue_title_def issue_body_def
      bindE_def heading_def upper_def lower_def)

lemma replace_char: "replace [a] [b] s = map (\<lambda>ch. if ch = a then b else ch) s"
  by (induction s) auto

lemma replace_char_away: "replace [a] [] s = filter (\<lambda>ch. ch \<noteq> a) s"
  by (induction s) auto

text \<open>
  Claim C5, as the code has it. The title that \<open>generateTable\<close> hands to \<open>bodyBreaker\<close>
  at width 25 is the title of the issue with every newline replaced by a space and
  every carriage return deleted.
\<close>

theorem issue_title_breaks:
  "getitem result ''title'' = Inr (JStr title) \<Longrightarrow>
   issue_title result =
     Inr (bodyBreaker
            (filter (\<lambda>ch. ch \<noteq> CR) (map (\<lambda>ch. if ch = LF then CHR '' '' else ch) title)) 25)"
  by (simp add: issue_title_def bindE_def replace_char replace_char_away)

theorem issue_title_breaks_witness:
  "issue_title (JObj [(''title'', JStr (''one'' @ [CR, LF] @ ''two'' @ [LF] @ ''three''))]) =
     Inr ''one two three ''"
proof -
  have t: "getitem (JObj [(''title'', JStr (''one'' @ [CR, LF] @ ''two'' @ [LF] @ ''three''))])
             ''title'' = Inr (JStr (''one'' @ [CR, LF] @ ''two'' @ [LF] @ ''three''))"
    by simp
  show ?thesis
    unfolding issue_title_breaks [OF t]
    by (simp add: CR_def LF_def bodyBreaker_def py_split_def isspace_def trim_def)
qed

text \<open>
  A carriage return between two letters: the code joins the letters into one token,
  where a space in its place would give two.
\<close>

theorem issue_title_breaks_counterexample:
  "issue_title (JObj [(''title'', JStr (''a'' @ [CR] @ ''b''))]) = Inr ''ab '' \<and>
   bodyBreaker (breaks_to_spaces (''a'' @ [CR] @ ''b'')) 25 = ''a b ''"
  by (simp add: issue_title_def bindE_def breaks_to_spaces_def CR_def LF_def bodyBreaker_def
      py_split_def isspace_def trim_def)

lemma split_from_end:
  assumes "solid d" "d \<noteq> []"
  shows "\<exists>ts u. split_from w (s @ d) = ts @ [u @ d]"
proof (induction s arbitrary: w)
  case Nil
  have "split_from w d = split_from (w @ d) []"
    using split_from_solid [OF assms(1), of w "[]"] by simp
  then have "split_from w ([] @ d) = [] @ [w @ d]"
    using assms(2) by simp
  then show ?case by blast
next
  case (Cons ch s)
  show ?case
  proof (cases "isspace ch")
    case True
    from Cons.IH [of "[]"] obtain ts u where "split_from [] (s @ d) = ts @ [u @ d]"
      by blast
    then have "split_from w ((ch # s) @ d) = (if w = [] then ts else w # ts) @ [u @ d]"
      using True by simp
    then show ?thesis by blast
  next
    case False
    from Cons.IH [of "w @ [ch]"] obtain ts u where "split_from (w @ [ch]) (s @ d) = ts @ [u @ d]"
      by blast
    then have "split_from w ((ch # s) @ d) = ts @ [u @ d]"
      using False by simp
    then show ?thesis by blast
  qed
qed

lemma bodyBreaker_last:
  "bodyBreaker body width \<noteq> [] \<Longrightarrow> last (bodyBreaker body width) = CHR '' ''"
proof -
  assume "bodyBreaker body width \<noteq> []"
  then have "py_split body \<noteq> []"
    by (auto simp: bodyBreaker_concat)
  then obtain ts t where "py_split body = ts @ [t]"
    by (metis append_butlast_last_id)
  then show ?thesis by (simp add: bodyBreaker_concat)
qed

lemma suffix_dots_last: "suffix ''...'' field \<Longrightarrow> last field = CHR ''.''"
  by (auto simp: suffix_def)

lemma issue_body_text:
  "getitem result ''body'' = Inr (JStr whole) \<Longrightarrow>
   issue_body limit result =
     Inr (if bodyBreaker (cut_body limit whole) 50 = [] then ''n/a''
          else bodyBreaker (cut_body limit whole) 50)"
  by (simp add: issue_body_def bindE_def cut_body_def Let_def)

lemma solid_dots: "solid ''...''"
  by (simp add: solid_def isspace_def)

text \<open>
  Claim C4, as the code has it. The body field of the row is \<open>bodyBreaker\<close> at width 50
  of the cut body, or \<open>n/a\<close> when that is empty. For a body longer than \<open>limit\<close> the
  field ends in \<open>..\<close> and a space, and in the whole marker and a space when the last
  token of the cut body, marker included, has at most 50 characters (\<open>bodyBreaker\<close>
  cuts a longer one and ends it in \<open>..\<close>). For a body of at most \<open>limit\<close> characters
  no marker is added and the field does not end in the marker.
\<close>

theorem issue_body_ellipsis:
  "getitem result ''body'' = Inr (JStr whole) \<Longrightarrow>
   issue_body limit result =
     Inr (if bodyBreaker (cut_body limit whole) 50 = [] then ''n/a''
          else bodyBreaker (cut_body limit whole) 50) \<and>
   (limit < int (length whole) \<longrightarrow>
      (\<exists>field. issue_body limit result = Inr field \<and> suffix ''.. '' field \<and>
         (length (last (py_split (cut_body limit whole))) \<le> 50 \<longrightarrow> suffix ''... '' field))) \<and>
   (int (length whole) \<le> limit \<longrightarrow>
      (\<exists>field. issue_body limit result = Inr field \<and> \<not> suffix ''...'' field) \<and>
      cut_body limit whole = replace ''`'' [] (replace [CR] [] (replace [LF] '' '' whole)))"
proof (intro conjI impI)
  assume "getitem result ''body'' = Inr (JStr whole)"
  then show "issue_body limit result =
     Inr (if bodyBreaker (cut_body limit whole) 50 = [] then ''n/a''
          else bodyBreaker (cut_body limit whole) 50)"
    by (rule issue_body_text)
next
  assume body: "getitem result ''body'' = Inr (JStr whole)" and long: "limit < int (length whole)"
  define pre where "pre = replace ''`'' [] (replace [CR] [] (replace [LF] '' '' (slice_to whole limit)))"
  have cut: "cut_body limit whole = pre @ ''...''"
    using long by (simp add: cut_body_def pre_def)
  from split_from_end [OF solid_dots, of "[]" pre]
  obtain ts u where toks: "py_split (cut_body limit whole) = ts @ [u @ ''...'']"
    by (auto simp: py_split_def cut)
  define front where "front = concat (map (\<lambda>word. trim 50 word @ '' '') ts)"
  have out: "bodyBreaker (cut_body limit whole) 50 = front @ trim 50 (u @ ''...'') @ '' ''"
    by (simp add: bodyBreaker_concat toks front_def)
  then have field: "issue_body limit result = Inr (front @ trim 50 (u @ ''...'') @ '' '')"
    using issue_body_text [OF body, of limit] by simp
  have two: "suffix ''.. '' (front @ trim 50 (u @ ''...'') @ '' '')"
  proof (cases "length (u @ ''...'') \<le> 50")
    case True
    then have "front @ trim 50 (u @ ''...'') @ '' '' = (front @ u @ ''.'') @ ''.. ''"
      by (simp add: trim_def)
    then show ?thesis by (metis suffixI)
  next
    case False
    then have "front @ trim 50 (u @ ''...'') @ '' '' = (front @ take 50 (u @ ''...'')) @ ''.. ''"
      by (simp add: trim_def)
    then show ?thesis by (metis suffixI)
  qed
  have three: "length (last (py_split (cut_body limit whole))) \<le> 50 \<longrightarrow>
               suffix ''... '' (front @ trim 50 (u @ ''...'') @ '' '')"
  proof
    assume "length (last (py_split (cut_body limit whole))) \<le> 50"
    then have "length (u @ ''...'') \<le> 50" by (simp add: toks)
    then have "front @ trim 50 (u @ ''...'') @ '' '' = (front @ u) @ ''... ''"
      by (simp add: trim_def)
    then show "suffix ''... '' (front @ trim 50 (u @ ''...'') @ '' '')" by (metis suffixI)
  qed
  from field two three
  show "\<exists>field. issue_body limit result = Inr field \<and> suffix ''.. '' field \<and>
          (length (last (py_split (cut_body limit whole))) \<le> 50 \<longrightarrow> suffix ''... '' field)"
    by blast
next
  assume body: "getitem result ''body'' = Inr (JStr whole)" and "int (length whole) \<le> limit"
  let ?s = "bodyBreaker (cut_body limit whole) 50"
  have "\<not> suffix ''...'' (if ?s = [] then ''n/a'' else ?s)"
  proof (cases "?s = []")
    case True
    then show ?thesis using suffix_dots_last [of "''n/a''"] by auto
  next
    case False
    then show ?thesis
      using bodyBreaker_last [OF False] suffix_dots_last [of ?s] by auto
  qed
  then show "\<exists>field. issue_body limit result = Inr field \<and> \<not> suffix ''...'' field"
    using issue_body_text [OF body, of limit] by simp
next
  assume "int (length whole) \<le> limit"
  then show "cut_body limit whole = replace ''`'' [] (replace [CR] [] (replace [LF] '' '' whole))"
    by (simp add: cut_body_def slice_to_def)
qed

theorem issue_body_ellipsis_witness:
  "(\<exists>field. issue_body 2 (JObj [(''body'', JStr ''abcd'')]) = Inr field \<and> suffix ''... '' field) \<and>
   (\<exists>field. issue_body 180 (JObj [(''body'', JStr ''abc...'')]) = Inr field \<and>
      \<not> suffix ''...'' field)"
proof -
  have b1: "getitem (JObj [(''body'', JStr ''abcd'')]) ''body'' = Inr (JStr ''abcd'')"
    and b2: "getitem (JObj [(''body'', JStr ''abc...'')]) ''body'' = Inr (JStr ''abc...'')"
    by simp_all
  have short: "length (last (py_split (cut_body 2 ''abcd''))) \<le> 50"
    by (simp add: cut_body_def slice_to_def CR_def LF_def py_split_def isspace_def)
  from issue_body_ellipsis [OF b1, of 2, THEN conjunct2, THEN conjunct1] short
  have "\<exists>field. issue_body 2 (JObj [(''body'', JStr ''abcd'')]) = Inr field \<and> suffix ''... '' field"
    by auto
  moreover from issue_body_ellipsis [OF b2, of 180, THEN conjunct2, THEN conjunct2]
  have "\<exists>field. issue_body 180 (JObj [(''body'', JStr ''abc...'')]) = Inr field \<and>
          \<not> suffix ''...'' field"
    by simp
  ultimately show ?thesis by blast
qed

text \<open>
  The body \<open>abcd\<close> is longer than the limit 2; its field ends in a space, not in the
  marker.
\<close>

theorem issue_body_ellipsis_counterexample:
  "issue_body 2 (JObj [(''body'', JStr ''abcd'')]) = Inr ''ab... '' \<and> \<not> suffix ''...'' ''ab... ''"
proof -
  have "issue_body 2 (JObj [(''body'', JStr ''abcd'')]) = Inr ''ab... ''"
    by (simp add: issue_body_def bindE_def slice_to_def CR_def LF_def bodyBreaker_def
        py_split_def isspace_def trim_def)
  moreover have "\<not> suffix ''...'' ''ab... ''"
    using suffix_dots_last [of "''ab... ''"] by auto
  ultimately show ?thesis by blast
qed

lemma map_of_bump:
  "map_of (map (\<lambda>entry. if fst entry = user then (fst entry, snd entry + 1) else entry) c) u =
   map_option (\<lambda>n. if u = user then n + 1 else n) (map_of c u)"
  by (induction c) auto

lemma count_of_increment:
  "count_of (increment c user) u = count_of c u + (if u = user then 1 else 0)"
proof (cases "user \<in> fst ` set c")
  case True
  then have "map_of c user \<noteq> None"
    by (simp add: map_of_eq_None_iff)
  then show ?thesis
    using True by (auto simp: count_of_def increment_def map_of_bump split: option.splits)
next
  case False
  then have "map_of c user = None"
    by (simp add: map_of_eq_None_iff)
  then show ?thesis
    using False by (auto simp: count_of_def increment_def map_add_def split: option.splits)
qed

lemma count_of_foldl_increment:
  "count_of (foldl increment c users) u = count_of c u + int (count_list users u)"
  by (induction users arbitrary: c) (simp_all add: count_of_increment)

lemma foldl_upsert_same:
  "m u = Some url \<or> (u, url) \<in> set users \<Longrightarrow>
   \<forall>url'. (u, url') \<in> set users \<longrightarrow> url' = url \<Longrightarrow>
   foldl (\<lambda>m user. m(fst user \<mapsto> snd user)) m users u = Some url"
proof (induction users arbitrary: m)
  case Nil
  then show ?case by simp
next
  case (Cons p ps)
  have "(m(fst p \<mapsto> snd p)) u = Some url \<or> (u, url) \<in> set ps"
    using Cons.prems by (cases p) auto
  moreover have "\<forall>url'. (u, url') \<in> set ps \<longrightarrow> url' = url"
    using Cons.prems(2) by simp
  ultimately show ?case using Cons.IH by simp
qed

lemma issue_row_user:
  "issue_row text_of limit result = Inr (row, user, user_url) \<Longrightarrow>
   issue_user result = Inr (user, user_url)"
  by (auto simp: issue_row_def bindE_def split: sum.splits prod.splits)

lemma rows_done:
  "rows text_of limit results t = (t', None) \<Longrightarrow>
   \<exists>users. map issue_user results = map Inr users \<and>
     tally t' = foldl increment (tally t) (map fst users) \<and>
     directory t' = foldl (\<lambda>m user. m(fst user \<mapsto> snd user)) (directory t) users \<and>
     total t' = total t + length results"
proof (induction results arbitrary: t)
  case Nil
  then show ?case by simp
next
  case (Cons result rest)
  from Cons.prems obtain row user user_url where
    row: "issue_row text_of limit result = Inr (row, user, user_url)"
    by (auto split: sum.splits)
  define t1 where "t1 = \<lparr>printed = printed t @ row @ [LF], total = total t + 1,
    directory = (directory t)(user \<mapsto> user_url), tally = increment (tally t) user\<rparr>"
  have "rows text_of limit rest t1 = (t', None)"
    using Cons.prems row by (simp add: t1_def)
  from Cons.IH [OF this] obtain users where
    u: "map issue_user rest = map Inr users"
      "tally t' = foldl increment (tally t1) (map fst users)"
      "directory t' = foldl (\<lambda>m user. m(fst user \<mapsto> snd user)) (directory t1) users"
      "total t' = total t1 + length rest"
    by blast
  have "map issue_user (result # rest) = map Inr ((user, user_url) # users)"
    using u(1) issue_row_user [OF row] by simp
  moreover have "tally t' = foldl increment (tally t) (map fst ((user, user_url) # users))"
    using u(2) by (simp add: t1_def)
  moreover have "directory t' =
      foldl (\<lambda>m user. m(fst user \<mapsto> snd user)) (directory t) ((user, user_url) # users)"
    using u(3) by (simp add: t1_def)
  moreover have "total t' = total t + length (result # rest)"
    using u(4) by (simp add: t1_def)
  ultimately show ?case by blast
qed

lemma len_iterate: "iterate output = Inr results \<Longrightarrow> len output = Inr (length results)"
  by (cases "output") auto

lemma generateTable_done:
  assumes "generateTable text_of output params limit c = (out, Inr res)"
  shows "\<exists>label issues t'.
           params ''labels'' = Some label \<and> iterate output = Inr issues \<and>
           rows text_of limit issues
             \<lparr>printed = header label, total = 0, directory = Map.empty, tally = c\<rparr> =
             (t', None) \<and>
           out = printed t' @ count_line (total t') (length issues) \<and>
           res = (directory t', tally t')"
proof (cases "params ''labels''")
  case None
  with assms show ?thesis by (simp add: generateTable_def)
next
  case (Some label)
  show ?thesis
  proof (cases "iterate output")
    case (Inl e)
    with assms Some show ?thesis by (simp add: generateTable_def)
  next
    case (Inr issues)
    define t0 where
      "t0 = \<lparr>printed = header label, total = 0, directory = Map.empty, tally = c\<rparr>"
    obtain t' r where run: "rows text_of limit issues t0 = (t', r)"
      by (cases "rows text_of limit issues t0")
    have returned: "len output = Inr (length issues)"
      using Inr by (rule len_iterate)
    show ?thesis
    proof (cases r)
      case None
      have "generateTable text_of output params limit c =
          (printed t' @ count_line (total t') (length issues), Inr (directory t', tally t'))"
        using Some Inr run returned None by (simp add: generateTable_def t0_def)
      with assms have "out = printed t' @ count_line (total t') (length issues)" "res = (directory t', tally t')"
        by simp_all
      moreover have "rows text_of limit issues t0 = (t', None)"
        using run None by simp
      ultimately show ?thesis
        using Some Inr unfolding t0_def by (intro exI conjI)
    next
      case (Some e)
      have "generateTable text_of output params limit c = (printed t', Inl e)"
        using \<open>params ''labels'' = Some label\<close> Inr run Some
        by (simp add: generateTable_def t0_def)
      with assms show ?thesis by simp
    qed
  qed
qed

lemma generateTable_tally_done:
  assumes "generateTable text_of output params limit c = (out, Inr (contributors', c'))"
  shows "\<exists>issues users.
           iterate output = Inr issues \<and>
           map issue_user issues = map Inr users \<and>
           c' = foldl increment c (map fst users) \<and>
           contributors' = foldl (\<lambda>m user. m(fst user \<mapsto> snd user)) Map.empty users \<and>
           (\<forall>login. count_of c' login = count_of c login + int (count_list (map fst users) login)) \<and>
           (\<forall>login url. (login, url) \<in> set users \<longrightarrow>
              (\<forall>url'. (login, url') \<in> set users \<longrightarrow> url' = url) \<longrightarrow>
              contributors' login = Some url) \<and>
           suffix (count_line (length issues) (length issues)) out"
proof -
  from generateTable_done [OF assms] obtain label issues t' where
    issues: "iterate output = Inr issues" and
    run: "rows text_of limit issues
             \<lparr>printed = header label, total = 0, directory = Map.empty, tally = c\<rparr> =
             (t', None)" and
    out: "out = printed t' @ count_line (total t') (length issues)" and
    res: "(contributors', c') = (directory t', tally t')"
    by (elim exE conjE) (rule that)
  from rows_done [OF run, simplified] obtain users where
    u: "map issue_user issues = map Inr users"
      "tally t' = foldl increment c (map fst users)"
      "directory t' = foldl (\<lambda>m user. m(fst user \<mapsto> snd user)) Map.empty users"
      "total t' = length issues"
    by (elim exE conjE) (rule that)
  have c': "c' = foldl increment c (map fst users)"
    using res u(2) by simp
  have d: "contributors' = foldl (\<lambda>m user. m(fst user \<mapsto> snd user)) Map.empty users"
    using res u(3) by simp
  have counts: "\<forall>login. count_of c' login = count_of c login + int (count_list (map fst users) login)"
    by (simp add: c' count_of_foldl_increment)
  have same: "\<forall>login url. (login, url) \<in> set users \<longrightarrow>
      (\<forall>url'. (login, url') \<in> set users \<longrightarrow> url' = url) \<longrightarrow> contributors' login = Some url"
  proof (intro allI impI)
    fix login url
    assume one: "(login, url) \<in> set users"
      and all: "\<forall>url'. (login, url') \<in> set users \<longrightarrow> url' = url"
    from one have "Map.empty login = Some url \<or> (login, url) \<in> set users" ..
    from foldl_upsert_same [OF this all] show "contributors' login = Some url"
      unfolding d .
  qed
  have line: "suffix (count_line (length issues) (length issues)) out"
    unfolding out u(4) by (rule suffixI) (rule refl)
  show ?thesis
    using issues u(1) c' d counts same line by (intro exI conjI)
qed

lemma complete_issueD:
  assumes "complete_issue result"
  shows "\<exists>title url body user.
    getitem result ''title'' = Inr (JStr title) \<and> getitem result ''html_url'' = Inr url \<and>
    getitem result ''body'' = Inr (JStr body) \<and> issue_user result = Inr user"
proof (cases "getitem result ''title''")
  case (Inl e)
  with assms show ?thesis by (simp add: complete_issue_def)
next
  case t: (Inr tv)
  show ?thesis
  proof (cases "getitem result ''html_url''")
    case (Inl e)
    with assms t show ?thesis by (cases tv) (simp_all add: complete_issue_def)
  next
    case u: (Inr url)
    show ?thesis
    proof (cases "getitem result ''body''")
      case (Inl e)
      with assms t u show ?thesis by (cases tv) (simp_all add: complete_issue_def)
    next
      case b: (Inr bv)
      show ?thesis
      proof (cases "issue_user result")
        case (Inl e)
        with assms t u b show ?thesis
          by (cases tv; cases bv) (simp_all add: complete_issue_def)
      next
        case (Inr user)
        with assms t u b show ?thesis
          by (cases tv; cases bv) (simp_all add: complete_issue_def)
      qed
    qed
  qed
qed

lemma issue_row_complete:
  assumes "complete_issue result"
  shows "\<exists>row user user_url. issue_row text_of limit result = Inr (row, user, user_url)"
proof -
  from complete_issueD [OF assms] obtain title url body user where
    f: "getitem result ''title'' = Inr (JStr title)" "getitem result ''html_url'' = Inr url"
      "getitem result ''body'' = Inr (JStr body)" "issue_user result = Inr user"
    by (elim exE conjE) (rule that)
  obtain login user_url where user: "user = (login, user_url)"
    by (cases user)
  have t: "issue_title result =
      Inr (bodyBreaker (replace [CR] [] (replace [LF] '' '' title)) 25)"
    using f(1) by (simp add: issue_title_def bindE_def)
  note b = issue_body_text [OF f(3), of limit]
  show ?thesis
    unfolding issue_row_def t b f(2) f(4) user by (simp add: bindE_def)
qed

lemma rows_complete:
  "\<forall>issue \<in> set results. complete_issue issue \<Longrightarrow> \<exists>t'. rows text_of limit results t = (t', None)"
proof (induction results arbitrary: t)
  case Nil
  then show ?case by simp
next
  case (Cons result rest)
  from Cons.prems have "complete_issue result" by simp
  from issue_row_complete [OF this, of text_of limit] obtain row user user_url where
    row: "issue_row text_of limit result = Inr (row, user, user_url)"
    by (elim exE) (rule that)
  from Cons.prems have "\<forall>issue \<in> set rest. complete_issue issue" by simp
  from Cons.IH [OF this] show ?case
    by (simp add: row)
qed

lemma generateTable_completes:
  assumes "params ''labels'' = Some label" "\<forall>issue \<in> set listed. complete_issue issue"
  shows "\<exists>out contributors' c'.
           generateTable text_of (JArr listed) params limit c = (out, Inr (contributors', c'))"
proof -
  from rows_complete [OF assms(2), of text_of limit
      "\<lparr>printed = header label, total = 0, directory = Map.empty, tally = c\<rparr>"]
  obtain t' where
    "rows text_of limit listed
       \<lparr>printed = header label, total = 0, directory = Map.empty, tally = c\<rparr> = (t', None)"
    by (elim exE) (rule that)
  then show ?thesis
    using assms(1) by (simp add: generateTable_def)
qed

text \<open>
  A pass that completes. The response was a sequence of issues, each with an author (a
  login and a profile URL), and the results are those of one increment and one upsert
  for each issue, in order: the counter is the given one incremented once for each
  issue's login, so every login's count grows by the number of its issues; the
  directory is the empty one with each issue's login set to its URL, so a login whose
  issues all carry the same URL is mapped to that URL; and the output ends in the line
  \<open>Total of n out of n\<close> for the number \<open>n\<close> of issues. The pass completes for every
  list of issues that have all their fields.
\<close>

lemma generateTable_completed_pass:
  "(generateTable text_of output params limit c = (out, Inr (contributors', c')) \<longrightarrow>
      (\<exists>issues users.
         iterate output = Inr issues \<and>
         map issue_user issues = map Inr users \<and>
         c' = foldl increment c (map fst users) \<and>
         contributors' = foldl (\<lambda>m user. m(fst user \<mapsto> snd user)) Map.empty users \<and>
         (\<forall>login. count_of c' login = count_of c login + int (count_list (map fst users) login)) \<and>
         (\<forall>login url. (login, url) \<in> set users \<longrightarrow>
            (\<forall>url'. (login, url') \<in> set users \<longrightarrow> url' = url) \<longrightarrow>
            contributors' login = Some url) \<and>
         suffix (''Total of '' @ decimal (length issues) @ '' out of '' @
                 decimal (length issues) @ [LF] @ [LF]) out)) \<and>
   (params ''labels'' = Some label \<and> (\<forall>issue \<in> set listed. complete_issue issue) \<longrightarrow>
      (\<exists>out contributors' c'.
         generateTable text_of (JArr listed) params limit c = (out, Inr (contributors', c'))))"
proof (rule conjI; rule impI)
  assume "generateTable text_of output params limit c = (out, Inr (contributors', c'))"
  from generateTable_tally_done [OF this, unfolded count_line_def]
  show "\<exists>issues users.
         iterate output = Inr issues \<and>
         map issue_user issues = map Inr users \<and>
         c' = foldl increment c (map fst users) \<and>
         contributors' = foldl (\<lambda>m user. m(fst user \<mapsto> snd user)) Map.empty users \<and>
         (\<forall>login. count_of c' login = count_of c login + int (count_list (map fst users) login)) \<and>
         (\<forall>login url. (login, url) \<in> set users \<longrightarrow>
            (\<forall>url'. (login, url') \<in> set users \<longrightarrow> url' = url) \<longrightarrow>
            contributors' login = Some url) \<and>
         suffix (''Total of '' @ decimal (length issues) @ '' out of '' @
                 decimal (length issues) @ [LF] @ [LF]) out" .
next
  assume "params ''labels'' = Some label \<and> (\<forall>issue \<in> set listed. complete_issue issue)"
  then have "params ''labels'' = Some label" "\<forall>issue \<in> set listed. complete_issue issue"
    by simp_all
  then show "\<exists>out contributors' c'.
         generateTable text_of (JArr listed) params limit c = (out, Inr (contributors', c'))"
    by (rule generateTable_completes)
qed

text \<open>
  Claim C7 asks that every issue of the response counts once for its author and is
  entered once in the directory, and that the count line shows two equal numbers. The
  loop does count and enter each issue it gets through, and the count line compares
  the rows printed with \<open>len(output)\<close>; but an issue whose body is \<open>null\<close> ends the pass
  (the defect of claim C1). In the response of a complete issue by \<open>bob\<close> followed by an
  issue by \<open>alice\<close> without details, the row of \<open>bob\<close> is printed and counted, then the
  pass ends in \<open>TypeError\<close>: the issue of \<open>alice\<close> is neither counted nor entered, and no
  count line is printed.
\<close>

theorem generateTable_tally_null_body:
  "generateTable text_of
     (JArr [an_issue ''Fix crash'' (JStr ''It crashed.'') ''bob'',
            an_issue ''No details'' JNull ''alice''])
     [''labels'' \<mapsto> ''bug''] 180 [] =
   ([LF] @ ''## Bug Fix Updates'' @ [LF] @
    [LF] @ ''| Title | Summary | Contributor |'' @ [LF] @ ''|---|---|---|'' @ [LF] @
    ''|[Fix crash ](https://github.com/caffe2/caffe2/issues/7)|It crashed. |'' @
    ''[bob](https://github.com/bob)|'' @ [LF],
    Inl TypeError) \<and>
   rows text_of 180
     [an_issue ''Fix crash'' (JStr ''It crashed.'') ''bob'',
      an_issue ''No details'' JNull ''alice'']
     \<lparr>printed = header ''bug'', total = 0, directory = Map.empty, tally = []\<rparr> =
   (\<lparr>printed = header ''bug'' @
        ''|[Fix crash ](https://github.com/caffe2/caffe2/issues/7)|It crashed. |'' @
        ''[bob](https://github.com/bob)|'' @ [LF],
     total = 1,
     directory = [''bob'' \<mapsto> JStr ''https://github.com/bob''],
     tally = [(''bob'', 1)]\<rparr>,
    Some TypeError)"
proof -
  have first: "issue_row text_of 180 (an_issue ''Fix crash'' (JStr ''It crashed.'') ''bob'') =
      Inr (''|[Fix crash ](https://github.com/caffe2/caffe2/issues/7)|It crashed. |'' @
           ''[bob](https://github.com/bob)|'', ''bob'', JStr ''https://github.com/bob'')"
    by (simp add: issue_row_def issue_title_def issue_body_def issue_user_def an_issue_def
        bindE_def Let_def CR_def LF_def slice_to_def formatted_def bodyBreaker_def py_split_def
        isspace_def trim_def)
  have second: "issue_row text_of 180 (an_issue ''No details'' JNull ''alice'') = Inl TypeError"
    by (simp add: issue_row_def issue_title_def issue_body_def an_issue_def bindE_def)
  have run: "rows text_of 180
     [an_issue ''Fix crash'' (JStr ''It crashed.'') ''bob'',
      an_issue ''No details'' JNull ''alice'']
     \<lparr>printed = header ''bug'', total = 0, directory = Map.empty, tally = []\<rparr> =
   (\<lparr>printed = header ''bug'' @
        ''|[Fix crash ](https://github.com/caffe2/caffe2/issues/7)|It crashed. |'' @
        ''[bob](https://github.com/bob)|'' @ [LF],
     total = 1,
     directory = [''bob'' \<mapsto> JStr ''https://github.com/bob''],
     tally = [(''bob'', 1)]\<rparr>,
    Some TypeError)"
    by (simp add: first second increment_def)
  have head: "header ''bug'' =
      [LF] @ ''## Bug Fix Updates'' @ [LF] @
      [LF] @ ''| Title | Summary | Contributor |'' @ [LF] @ ''|---|---|---|'' @ [LF]"
    by (simp add: header_def heading_def upper_def lower_def)
  have "generateTable text_of
     (JArr [an_issue ''Fix crash'' (JStr ''It crashed.'') ''bob'',
            an_issue ''No details'' JNull ''alice''])
     [''labels'' \<mapsto> ''bug''] 180 [] =
   (header ''bug'' @
    ''|[Fix crash ](https://github.com/caffe2/caffe2/issues/7)|It crashed. |'' @
    ''[bob](https://github.com/bob)|'' @ [LF],
    Inl TypeError)"
    by (simp add: generateTable_def run del: rows.simps)
  then show ?thesis
    using run by (simp add: head del: rows.simps)
qed

section \<open>The ranking\<close>

lemma ranked_loop_done:
  "map (\<lambda>entry. contributors (fst entry)) ranked = map Some urls \<Longrightarrow>
   ranked_loop text_of contributors ranked out =
     (out @ concat (map2 (link text_of) (map fst ranked) urls), None)"
proof (induction ranked arbitrary: urls out)
  case Nil
  then show ?case by simp
next
  case (Cons entry ranked)
  from Cons.prems obtain url rest where urls: "urls = url # rest"
    by (cases urls) auto
  with Cons.prems have "contributors (fst entry) = Some url"
    and "map (\<lambda>entry. contributors (fst entry)) ranked = map Some rest"
    by simp_all
  with Cons.IH [of rest "out @ link text_of (fst entry) url"] show ?case
    by (cases entry) (simp add: urls)
qed

lemma most_common_descending:
  "sorted_wrt (\<lambda>a b. snd b \<le> snd a) (most_common iteritems c)"
proof -
  have "sorted (map (\<lambda>entry. - snd entry) (most_common iteritems c))"
    by (simp add: most_common_def)
  then show ?thesis by (simp add: sorted_map)
qed

lemma most_common_stable:
  "filter (\<lambda>entry. snd entry = n) (most_common iteritems c) =
   filter (\<lambda>entry. snd entry = n) (iteritems c)"
  using sort_key_stable [of "\<lambda>entry. - snd entry" "- n" "iteritems c"]
  by (simp add: most_common_def)

lemma sorted_two_keys:
  fixes f :: "'a \<Rightarrow> int"
  assumes "a < b"
  shows "sorted (map f ys) \<Longrightarrow> \<forall>y \<in> set ys. f y = a \<or> f y = b \<Longrightarrow>
         ys = filter (\<lambda>y. f y = a) ys @ filter (\<lambda>y. f y = b) ys"
proof (induction ys)
  case Nil
  then show ?case by simp
next
  case (Cons y ys)
  then have IH: "ys = filter (\<lambda>y. f y = a) ys @ filter (\<lambda>y. f y = b) ys"
    by simp
  show ?case
  proof (cases "f y = a")
    case True
    then have "f y \<noteq> b" using assms by simp
    with True IH show ?thesis by simp
  next
    case False
    with Cons.prems have fy: "f y = b" by simp
    with Cons.prems have "\<forall>z \<in> set ys. f z = b"
      using assms by fastforce
    then have "filter (\<lambda>y. f y = a) ys = []" "filter (\<lambda>y. f y = b) ys = ys"
      using assms by (auto simp: filter_empty_conv filter_id_conv)
    with fy False show ?thesis by simp
  qed
qed

lemma most_common_example:
  assumes "mset (iteritems example_tally) = mset example_tally"
  shows "most_common iteritems example_tally =
         (''bob'', 5) # filter (\<lambda>entry. fst entry \<noteq> ''bob'') (iteritems example_tally)"
proof -
  define xs where "xs = iteritems example_tally"
  define ys where "ys = most_common iteritems example_tally"
  have m: "mset xs = mset [(''alice'', 3), (''bob'', 5), (''carol'', 3 :: int)]"
    using assms by (simp add: xs_def example_tally_def)
  then have s: "set xs = {(''alice'', 3), (''bob'', 5), (''carol'', 3)}"
    using mset_eq_setD [OF m] by simp
  have ys: "ys = sort_key (\<lambda>entry. - snd entry) xs"
    by (simp add: ys_def xs_def most_common_def)
  have "sorted (map (\<lambda>entry. - snd entry) ys)"
    by (simp add: ys)
  moreover have "\<forall>y \<in> set ys. - snd y = - 5 \<or> - snd y = - 3"
    by (auto simp: ys s)
  ultimately have "ys = filter (\<lambda>y. - snd y = - 5) ys @ filter (\<lambda>y. - snd y = - 3) ys"
    by (intro sorted_two_keys) simp_all
  also have "filter (\<lambda>y. - snd y = - 5) ys = filter (\<lambda>y. - snd y = - 5) xs"
    unfolding ys by (rule sort_key_stable)
  also have "filter (\<lambda>y. - snd y = - 3) ys = filter (\<lambda>y. - snd y = - 3) xs"
    unfolding ys by (rule sort_key_stable)
  finally have split: "ys = filter (\<lambda>y. - snd y = - 5) xs @ filter (\<lambda>y. - snd y = - 3) xs" .
  have "mset (filter (\<lambda>y. - snd y = - 5) xs) = {#(''bob'', 5)#}"
    by (simp add: m)
  then have first: "filter (\<lambda>y. - snd y = - 5) xs = [(''bob'', 5)]"
    by (simp only: mset_single_iff)
  have rest: "filter (\<lambda>y. - snd y = - 3) xs = filter (\<lambda>entry. fst entry \<noteq> ''bob'') xs"
    by (rule filter_cong) (auto simp: s)
  show ?thesis
    using split first rest by (simp add: xs_def ys_def)
qed

lemma all_Some_map:
  "\<forall>x \<in> set xs. \<exists>y. f x = Some y \<Longrightarrow> \<exists>ys. map f xs = map Some ys"
proof (induction xs)
  case Nil
  then show ?case by simp
next
  case (Cons x xs)
  then obtain y ys where "f x = Some y" "map f xs = map Some ys"
    by auto
  then have "map f (x # xs) = map Some (y # ys)" by simp
  then show ?case by blast
qed

text \<open>
  Claim C8, as the code has it. When the dict lists the entries of the tally in some
  order of its own and every contributor of the tally is in the directory,
  \<open>generateList\<close> prints the heading and one link for each contributor, in the order
  of \<open>most_common\<close>: all the entries of the tally, the counts descending, and entries
  of equal count in the order in which the dict lists them. For the tally of the
  example, \<open>bob\<close> comes first and \<open>alice\<close> and \<open>carol\<close> follow, in the order in
  which the dict lists these two.
\<close>

theorem generateList_ranked:
  assumes "mset (iteritems c) = mset c"
    and "\<forall>entry \<in> set c. \<exists>url. contributors (fst entry) = Some url"
  shows "(\<exists>urls.
            map (\<lambda>entry. contributors (fst entry)) (most_common iteritems c) = map Some urls \<and>
            generateList text_of iteritems contributors c label =
              ([LF] @ ''### '' @ heading label @ '' Contributors'' @ [LF] @ [LF] @
               concat (map2 (link text_of) (map fst (most_common iteritems c)) urls) @
               [LF] @ [LF], Inr ())) \<and>
         mset (most_common iteritems c) = mset c \<and>
         sorted_wrt (\<lambda>a b. snd b \<le> snd a) (most_common iteritems c) \<and>
         (\<forall>n. filter (\<lambda>entry. snd entry = n) (most_common iteritems c) =
              filter (\<lambda>entry. snd entry = n) (iteritems c)) \<and>
         (c = example_tally \<longrightarrow>
            most_common iteritems c =
              (''bob'', 5) # filter (\<lambda>entry. fst entry \<noteq> ''bob'') (iteritems c))"
proof (intro conjI allI impI)
  have perm: "mset (most_common iteritems c) = mset c"
    using assms(1) by (simp add: most_common_def)
  then show "mset (most_common iteritems c) = mset c" .
  from perm have "set (most_common iteritems c) = set c"
    by (rule mset_eq_setD)
  with assms(2)
  have "\<forall>entry \<in> set (most_common iteritems c). \<exists>url. contributors (fst entry) = Some url"
    by simp
  then obtain urls where
    urls: "map (\<lambda>entry. contributors (fst entry)) (most_common iteritems c) = map Some urls"
    using all_Some_map [of "most_common iteritems c" "\<lambda>entry. contributors (fst entry)"]
    by blast
  have "generateList text_of iteritems contributors c label =
      ([LF] @ ''### '' @ heading label @ '' Contributors'' @ [LF] @ [LF] @
       concat (map2 (link text_of) (map fst (most_common iteritems c)) urls) @
       [LF] @ [LF], Inr ())"
    by (simp add: generateList_def ranked_loop_done [OF urls])
  with urls show "\<exists>urls.
      map (\<lambda>entry. contributors (fst entry)) (most_common iteritems c) = map Some urls \<and>
      generateList text_of iteritems contributors c label =
        ([LF] @ ''### '' @ heading label @ '' Contributors'' @ [LF] @ [LF] @
         concat (map2 (link text_of) (map fst (most_common iteritems c)) urls) @
         [LF] @ [LF], Inr ())"
    by (intro exI conjI)
next
  show "sorted_wrt (\<lambda>a b. snd b \<le> snd a) (most_common iteritems c)"
    by (rule most_common_descending)
next
  fix n
  show "filter (\<lambda>entry. snd entry = n) (most_common iteritems c) =
        filter (\<lambda>entry. snd entry = n) (iteritems c)"
    by (rule most_common_stable)
next
  assume "c = example_tally"
  with assms(1) show "most_common iteritems c =
      (''bob'', 5) # filter (\<lambda>entry. fst entry \<noteq> ''bob'') (iteritems c)"
    by (simp add: most_common_example)
qed

text \<open>
  The tally of the example, with \<open>alice\<close> seen first. CPython 2.7 stores the three keys
  by their hash values and lists them as \<open>carol\<close>, \<open>bob\<close>, \<open>alice\<close>, which is the
  reverse of the first-seen order: \<open>carol\<close> is printed before \<open>alice\<close>.
\<close>

theorem generateList_ranked_counterexample:
  "most_common rev example_tally = [(''bob'', 5), (''carol'', 3), (''alice'', 3)] \<and>
   generateList scalar_text rev example_directory example_tally ''bug'' =
     ([LF] @ ''### Bug Fix Contributors'' @ [LF] @ [LF] @
      ''[bob](https://github.com/bob) [carol](https://github.com/carol) '' @
      ''[alice](https://github.com/alice) '' @ [LF] @ [LF], Inr ())"
  by (simp add: generateList_def most_common_def example_tally_def example_directory_def
      link_def formatted_def heading_def upper_def lower_def)

theorem generateList_ranked_witness:
  "mset (most_common rev example_tally) = mset example_tally \<and>
   sorted_wrt (\<lambda>a b. snd b \<le> snd a) (most_common rev example_tally) \<and>
   filter (\<lambda>entry. snd entry = 3) (most_common rev example_tally) =
     [(''carol'', 3), (''alice'', 3)] \<and>
   most_common rev example_tally = [(''bob'', 5), (''carol'', 3), (''alice'', 3)]"
proof -
  have perm: "mset (rev example_tally) = mset example_tally"
    by simp
  have dir: "\<forall>entry \<in> set example_tally. \<exists>url. example_directory (fst entry) = Some url"
    by (simp add: example_tally_def example_directory_def)
  note ranked = generateList_ranked [where iteritems = rev and c = example_tally
      and contributors = example_directory and text_of = scalar_text and label = "''bug''",
      OF perm dir]
  from ranked have "mset (most_common rev example_tally) = mset example_tally"
    by (elim conjE)
  moreover from ranked have "sorted_wrt (\<lambda>a b. snd b \<le> snd a) (most_common rev example_tally)"
    by (elim conjE)
  moreover from ranked have "filter (\<lambda>entry. snd entry = 3) (most_common rev example_tally) =
      filter (\<lambda>entry. snd entry = 3) (rev example_tally)"
    by (elim conjE) (erule allE)
  then have "filter (\<lambda>entry. snd entry = 3) (most_common rev example_tally) =
      [(''carol'', 3), (''alice'', 3)]"
    by (simp add: example_tally_def)
  moreover from ranked have "most_common rev example_tally =
      (''bob'', 5) # filter (\<lambda>entry. fst entry \<noteq> ''bob'') (rev example_tally)"
    by (elim conjE) simp
  then have "most_common rev example_tally = [(''bob'', 5), (''carol'', 3), (''alice'', 3)]"
    by (simp add: example_tally_def)
  ultimately show ?thesis by (intro conjI)
qed

end
